theory Spec2Isabelle
  imports Complex_Main "HOL-Library.Word"
begin

section \<open>JavaScript strings\<close>

text \<open>
  A JavaScript string is a sequence of UTF-16 code units and \<open>length\<close> counts code
  units, so a string is a list of 16-bit words. \<open>str\<close> embeds an ASCII literal.
\<close>

type_synonym jsstring = "16 word list"

definition str :: "string \<Rightarrow> jsstring" where
  "str s = map (\<lambda>c. of_char c) s"

definition nl :: jsstring where
  "nl = [0x0A]"

definition nl2 :: jsstring where
  "nl2 = [0x0A, 0x0A]"

text \<open>
  The code units that \<open>String.prototype.trim\<close> strips and that \<open>\s\<close> matches:
  ECMAScript's WhiteSpace and LineTerminator productions.
\<close>

definition isWhiteSpace :: "16 word \<Rightarrow> bool" where
  "isWhiteSpace c =
     (c \<in> set [0x09, 0x0A, 0x0B, 0x0C, 0x0D, 0x20, 0xA0, 0x1680, 0x2028, 0x2029,
                0x202F, 0x205F, 0x3000, 0xFEFF]
      \<or> (0x2000 \<le> c \<and> c \<le> 0x200A))"

definition trim :: "jsstring \<Rightarrow> jsstring" where
  "trim s = rev (dropWhile isWhiteSpace (rev (dropWhile isWhiteSpace s)))"


definition startsWith :: "jsstring \<Rightarrow> jsstring \<Rightarrow> bool" where
  "startsWith s prefix = (take (length prefix) s = prefix)"

text \<open>
  \<open>text.lastIndexOf(pat)\<close>: the greatest index at which \<open>pat\<close> occurs in
  \<open>text\<close>, and \<open>-1\<close> when it occurs nowhere.
\<close>

definition lastIndexOf :: "jsstring \<Rightarrow> jsstring \<Rightarrow> int" where
  "lastIndexOf text pat =
     (case filter (\<lambda>i. take (length pat) (drop i text) = pat) (rev [0..<Suc (length text)]) of
        [] \<Rightarrow> - 1
      | i # _ \<Rightarrow> int i)"

section \<open>Products of a length and a double literal\<close>

text \<open>
  \<open>_findSplitPoint\<close> multiplies \<open>text.length\<close> by the literals \<open>0.7\<close>, \<open>0.8\<close> and
  \<open>0.9\<close>. The literals denote the doubles \<open>c / 2^53\<close> for the numerators below, and
  the product of a length \<open>n\<close> and such a double is the exact product \<open>n * c / 2^53\<close>
  rounded to 53 significant bits, ties to even. \<open>round53\<close> does the rounding on the
  numerator, so \<open>jsMul n c\<close> is the numerator, over \<open>2^53\<close>, of the double that
  JavaScript computes (lengths are below \<open>2^53\<close>, so \<open>n\<close> itself is a double).
\<close>

fun bitlen_nat :: "nat \<Rightarrow> nat" where
  "bitlen_nat n = (if n = 0 then 0 else Suc (bitlen_nat (n div 2)))"

declare bitlen_nat.simps [simp del]

definition round53 :: "nat \<Rightarrow> nat" where
  "round53 N =
     (let b = bitlen_nat N in
      if b \<le> 53 then N
      else
        let k = b - 53;
            q = N div 2 ^ k;
            r = N mod 2 ^ k;
            h = 2 ^ (k - 1)
        in (if r > h \<or> (r = h \<and> odd q) then q + 1 else q) * 2 ^ k)"

definition jsMul :: "nat \<Rightarrow> nat \<Rightarrow> nat" where
  "jsMul n c = round53 (n * c)"

definition double_0_7 :: nat where
  "double_0_7 = 6305039478318694"

definition double_0_8 :: nat where
  "double_0_8 = 7205759403792794"

definition double_0_9 :: nat where
  "double_0_9 = 8106479329266893"

text \<open>\<open>i > d\<close> for an integer \<open>i\<close> and the double with numerator \<open>d\<close>.\<close>

definition jsGreater :: "int \<Rightarrow> nat \<Rightarrow> bool" where
  "jsGreater i d = (int d < i * 2 ^ 53)"

text \<open>\<open>Math.floor(d)\<close> for the double with numerator \<open>d\<close>.\<close>

definition jsFloor :: "nat \<Rightarrow> nat" where
  "jsFloor d = d div 2 ^ 53"

section \<open>MessageFormatter: splitting into chunks\<close>

text \<open>
  \<open>MessageFormatter._findSplitPoint(text)\<close>: after the last blank line when that lies
  beyond 70 percent of the text, else after the last newline when that lies beyond 80
  percent, else a hard cut at 90 percent.
\<close>

definition findSplitPoint :: "jsstring \<Rightarrow> nat" where
  "findSplitPoint text =
     (let articleBoundary = lastIndexOf text nl2 in
      if jsGreater articleBoundary (jsMul (length text) double_0_7)
      then nat (articleBoundary + 2)
      else
        let newline = lastIndexOf text nl in
        if jsGreater newline (jsMul (length text) double_0_8)
        then nat (newline + 1)
        else jsFloor (jsMul (length text) double_0_9))"

text \<open>
  The \<open>while\<close> loop of \<open>_splitIntoChunks\<close> that cuts a chunk longer than
  \<open>maxLength\<close>. It need not terminate, so it is a partial function: \<open>None\<close> is a
  run that never leaves the loop.
\<close>

partial_function (option) splitLoop ::
  "nat \<Rightarrow> jsstring \<Rightarrow> jsstring list \<Rightarrow> jsstring \<Rightarrow> (jsstring list \<times> jsstring) option" where
  "splitLoop maxLength header chunks currentChunk =
     (if length currentChunk > maxLength
      then
        let splitPoint = findSplitPoint (take maxLength currentChunk) in
        splitLoop maxLength header
          (chunks @ [take splitPoint currentChunk])
          (header @ nl2 @ trim (drop splitPoint currentChunk) @ nl2)
      else Some (chunks, currentChunk))"

text \<open>One iteration of the \<open>for\<close> loop over the sections.\<close>

definition sectionStep ::
  "nat \<Rightarrow> jsstring \<Rightarrow> jsstring list \<times> jsstring \<Rightarrow> jsstring \<Rightarrow> (jsstring list \<times> jsstring) option" where
  "sectionStep maxLength header st section =
     (let chunks = fst st;
          currentChunk = snd st;
          testChunk = currentChunk @ section @ nl2
      in
        if length testChunk > maxLength
        then
          splitLoop maxLength header
            (if length currentChunk > length header + 2 then chunks @ [currentChunk] else chunks)
            (header @ nl2 @ section @ nl2)
        else Some (chunks, testChunk))"

fun sectionLoop ::
  "nat \<Rightarrow> jsstring \<Rightarrow> jsstring list \<times> jsstring \<Rightarrow> jsstring list \<Rightarrow> (jsstring list \<times> jsstring) option" where
  "sectionLoop maxLength header st [] = Some st"
| "sectionLoop maxLength header st (section # sections) =
     (case sectionStep maxLength header st section of
        None \<Rightarrow> None
      | Some st' \<Rightarrow> sectionLoop maxLength header st' sections)"

text \<open>The code after the loop: the footer, and the fallback for an empty result.\<close>

definition addFooter :: "nat \<Rightarrow> jsstring \<Rightarrow> jsstring \<Rightarrow> jsstring list \<times> jsstring \<Rightarrow> jsstring list" where
  "addFooter maxLength header footer st =
     (let chunks = fst st;
          currentChunk = snd st;
          testWithFooter = currentChunk @ footer;
          chunks' =
            (if length testWithFooter > maxLength
             then
               (if length currentChunk > length header + 2 then chunks @ [currentChunk] else chunks)
                 @ [header @ nl2 @ footer]
             else
               (if length testWithFooter > length header + 2
                then chunks @ [testWithFooter] else chunks))
      in if length chunks' > 0 then chunks' else [header @ nl2 @ footer])"

text \<open>
  \<open>MessageFormatter._splitIntoChunks(header, sections, footer)\<close>, with
  \<open>DISCORD_CONFIG.maxLength\<close> as the parameter \<open>maxLength\<close>.
\<close>

definition splitIntoChunks ::
  "nat \<Rightarrow> jsstring \<Rightarrow> jsstring list \<Rightarrow> jsstring \<Rightarrow> jsstring list option" where
  "splitIntoChunks maxLength header sections footer =
     (case sectionLoop maxLength header ([], header @ nl2) sections of
        None \<Rightarrow> None
      | Some st \<Rightarrow> Some (addFooter maxLength header footer st))"

definition DISCORD_CONFIG_maxLength :: nat where
  "DISCORD_CONFIG_maxLength = 2000"

text \<open>
  Predicates used to state the properties of the splitter. \<open>withinLimit\<close> is the
  loop invariant of the length bound: every chunk pushed so far is within the limit, and
  the open chunk is within the limit or still the bare header. \<open>nonWhite\<close> keeps the
  code units that are not white space, \<open>withHeader\<close> is a chunk made of the header, a
  blank line and a body, and \<open>carries\<close> says that the chunks pushed so far and the open
  chunk are of that shape and that their bodies hold the non-white content \<open>K\<close>.
\<close>

definition withinLimit :: "nat \<Rightarrow> jsstring \<Rightarrow> jsstring list \<times> jsstring \<Rightarrow> bool" where
  "withinLimit L h st =
     (list_all (\<lambda>c. length c \<le> L) (fst st)
      \<and> (length (snd st) \<le> L \<or> length (snd st) \<le> length h + 2))"

definition nonWhite :: "jsstring \<Rightarrow> jsstring" where
  "nonWhite s = filter (\<lambda>c. \<not> isWhiteSpace c) s"




section \<open>RetryHandler\<close>

text \<open>
  The handler's configuration, and \<open>RETRY_CONFIG\<close>, the defaults that the constructor
  takes for the options a caller leaves out (\<open>config.x ?? RETRY_CONFIG.x\<close>). Delays are
  numbers of milliseconds; they are modelled as exact rationals, and the value of
  \<open>Math.random()\<close> that \<open>_calculateDelay\<close> draws is an argument.
\<close>

record retry_config =
  maxRetries :: int
  baseDelay :: rat
  maxDelay :: rat
  jitter :: bool

record retry_options =
  opt_maxRetries :: "int option"
  opt_baseDelay :: "rat option"
  opt_maxDelay :: "rat option"
  opt_jitter :: "bool option"

definition RETRY_CONFIG :: retry_config where
  "RETRY_CONFIG = \<lparr>maxRetries = 3, baseDelay = 1000, maxDelay = 10000, jitter = True\<rparr>"

definition RetryHandler_new :: "retry_options \<Rightarrow> retry_config" where
  "RetryHandler_new config =
     \<lparr>maxRetries = (case opt_maxRetries config of Some v \<Rightarrow> v | None \<Rightarrow> maxRetries RETRY_CONFIG),
      baseDelay = (case opt_baseDelay config of Some v \<Rightarrow> v | None \<Rightarrow> baseDelay RETRY_CONFIG),
      maxDelay = (case opt_maxDelay config of Some v \<Rightarrow> v | None \<Rightarrow> maxDelay RETRY_CONFIG),
      jitter = (case opt_jitter config of Some v \<Rightarrow> v | None \<Rightarrow> jitter RETRY_CONFIG)\<rparr>"

text \<open>\<open>RetryHandler._calculateDelay(attempt)\<close>, with the random draw \<open>random\<close>.\<close>

definition calculateDelay :: "retry_config \<Rightarrow> nat \<Rightarrow> rat \<Rightarrow> int" where
  "calculateDelay this attempt random =
     (let exponentialDelay = baseDelay this * 2 ^ attempt;
          delay = min exponentialDelay (maxDelay this);
          delay = (if jitter this then delay * (1 / 2 + random) else delay)
      in \<lfloor>delay\<rfloor>)"

text \<open>
  \<open>RetryHandler.execute(fn)\<close>. The wrapped operation takes no argument, so all that the
  handler sees of it is the outcome of each invocation: \<open>fn k\<close> is the outcome of the
  invocation number \<open>k\<close> (counted from 0), \<open>Inl\<close> the error it throws and \<open>Inr\<close>
  the value it returns. Every pass through the loop invokes the operation once, so the
  invocation number is the loop variable \<open>attempt\<close>. \<open>random k\<close> is the draw of
  \<open>Math.random()\<close> in pass \<open>k\<close>. An execution records the result (\<open>Inl\<close> what is
  thrown, where \<open>None\<close> is \<open>undefined\<close>, the initial value of \<open>lastError\<close>), the
  number of invocations made and the delays slept, in order.
\<close>

record ('e, 'a) execution =
  result :: "'e option + 'a"
  invocations :: nat
  sleeps :: "int list"

function executeLoop ::
  "retry_config \<Rightarrow> (nat \<Rightarrow> 'e + 'a) \<Rightarrow> (nat \<Rightarrow> rat) \<Rightarrow> nat \<Rightarrow> 'e option \<Rightarrow> int list
     \<Rightarrow> ('e, 'a) execution" where
  "executeLoop this fn random attempt lastError slept =
     (if int attempt \<le> maxRetries this
      then
        (case fn attempt of
           Inr v \<Rightarrow> \<lparr>result = Inr v, invocations = attempt + 1, sleeps = slept\<rparr>
         | Inl error \<Rightarrow>
             if int attempt = maxRetries this
             then \<lparr>result = Inl (Some error), invocations = attempt + 1, sleeps = slept\<rparr>
             else
               executeLoop this fn random (attempt + 1) (Some error)
                 (slept @ [calculateDelay this attempt (random attempt)]))
      else \<lparr>result = Inl lastError, invocations = attempt, sleeps = slept\<rparr>)"
  by pat_completeness auto
termination
  by (relation "measure (\<lambda>(this, fn, random, attempt, lastError, slept).
        nat (maxRetries this + 1 - int attempt))") auto

declare executeLoop.simps [simp del]

definition execute :: "retry_config \<Rightarrow> (nat \<Rightarrow> 'e + 'a) \<Rightarrow> (nat \<Rightarrow> rat) \<Rightarrow> ('e, 'a) execution" where
  "execute this fn random = executeLoop this fn random 0 None []"

section \<open>JavaScript values, errors and the platform\<close>

text \<open>
  The values that reach the code where it tests truthiness or the type of an argument,
  and the errors it can meet. A number is modelled by an integer; all that the code asks
  of one is whether it is truthy.
\<close>

datatype jsvalue =
    JUndefined
  | JNull
  | JBoolean bool
  | JNumber int
  | JString jsstring

fun truthy :: "jsvalue \<Rightarrow> bool" where
  "truthy JUndefined = False"
| "truthy JNull = False"
| "truthy (JBoolean b) = b"
| "truthy (JNumber n) = (n \<noteq> 0)"
| "truthy (JString s) = (s \<noteq> [])"

datatype js_error =
    TypeError
  | RangeError
  | IOError
  | Error jsstring



text \<open>
  What the code takes from Node and is not part of the repository: the SHA-256 hex digest
  of \<open>crypto\<close>, and the \<open>URL\<close> class (\<open>new URL(s)\<close>, which throws when \<open>s\<close> does not
  parse and is \<open>None\<close> then, \<open>url.searchParams.delete(name)\<close>, \<open>url.toString()\<close>,
  \<open>url.hostname\<close> and \<open>url.pathname\<close>). They are parameters of the model;
  \<open>'u\<close> is the type of URL objects.
\<close>

record 'u platform =
  sha256_hex :: "jsstring \<Rightarrow> jsstring"
  URL_new :: "jsstring \<Rightarrow> 'u option"
  searchParams_delete :: "jsstring \<Rightarrow> 'u \<Rightarrow> 'u"
  URL_toString :: "'u \<Rightarrow> jsstring"
  URL_hostname :: "'u \<Rightarrow> jsstring"
  URL_pathname :: "'u \<Rightarrow> jsstring"

section \<open>Article\<close>














section \<open>CacheService\<close>

text \<open>
  A plain object with string keys is a list of its own properties in insertion order:
  \<open>obj_get\<close> reads a property (\<open>None\<close> is \<open>undefined\<close>), \<open>obj_set\<close> assigns one
  and \<open>obj_in\<close> is the operator \<open>in\<close>. The keys of the cache are source names and
  hex digests; none of them names a member of \<open>Object.prototype\<close>, so inherited
  properties are left out of the model.
\<close>

type_synonym 'v obj = "(jsstring \<times> 'v) list"

definition obj_get :: "'v obj \<Rightarrow> jsstring \<Rightarrow> 'v option" where
  "obj_get obj key = map_of obj key"

fun obj_set :: "jsstring \<Rightarrow> 'v \<Rightarrow> 'v obj \<Rightarrow> 'v obj" where
  "obj_set key v [] = [(key, v)]"
| "obj_set key v ((k, w) # obj) =
     (if k = key then (key, v) # obj else (k, w) # obj_set key v obj)"


text \<open>
  The cache object: \<open>articles\<close> maps a source name to the object that maps the hash of
  an article to a timestamp.
\<close>

record store =
  version :: jsstring
  lastUpdated :: jsstring
  articles :: "jsstring obj obj"

definition CACHE_CONFIG_version :: jsstring where
  "CACHE_CONFIG_version = str ''1.0''"

text \<open>
  What \<open>fs.readFile\<close> and \<open>JSON.parse\<close> make of the file \<open>seen.json\<close>: the file is
  missing (\<open>ENOENT\<close>), cannot be read for another reason, holds text that
  \<open>JSON.parse\<close> rejects (or the text \<open>null\<close>, on which reading \<open>version\<close> throws),
  or holds a cache object. The service is the field \<open>_cache\<close> (\<open>None\<close> is \<open>null\<close>)
  together with that file; \<open>writable\<close> tells whether \<open>fs.writeFile\<close> succeeds.
\<close>

datatype cache_file =
    Missing
  | Unreadable
  | Garbage
  | Json store

record cache_service =
  cache :: "store option"
  cacheFile :: cache_file
  writable :: bool

text \<open>\<open>CacheService._createEmptyCache()\<close>; \<open>now\<close> is \<open>new Date().toISOString()\<close>.\<close>

definition createEmptyCache :: "jsstring \<Rightarrow> store" where
  "createEmptyCache now =
     \<lparr>version = CACHE_CONFIG_version, lastUpdated = now,
      articles = [(str ''hackernews'', []), (str ''qiita'', []), (str ''zenn'', [])]\<rparr>"

text \<open>
  \<open>CacheService.save()\<close>: stamps \<open>lastUpdated\<close> and writes the cache to the file;
  whatever fails is logged and thrown again.
\<close>

definition save :: "jsstring \<Rightarrow> cache_service \<Rightarrow> (js_error + unit) \<times> cache_service" where
  "save now this =
     (case cache this of
        None \<Rightarrow> (Inl TypeError, this)
      | Some c \<Rightarrow>
          let c' = c\<lparr>lastUpdated := now\<rparr> in
          if writable this
          then (Inr (), this\<lparr>cache := Some c', cacheFile := Json c'\<rparr>)
          else (Inl IOError, this\<lparr>cache := Some c'\<rparr>))"

text \<open>
  \<open>CacheService.load()\<close>. In the \<open>try\<close> block a cache of another version is replaced
  by the empty cache; nothing is written there. Both branches of the \<open>catch\<close> create
  the empty cache and save it.
\<close>

definition load :: "jsstring \<Rightarrow> cache_service \<Rightarrow> (js_error + store) \<times> cache_service" where
  "load now this =
     (case cacheFile this of
        Json data \<Rightarrow>
          let c = (if version data \<noteq> CACHE_CONFIG_version then createEmptyCache now else data)
          in (Inr c, this\<lparr>cache := Some c\<rparr>)
      | Missing \<Rightarrow>
          (case save now (this\<lparr>cache := Some (createEmptyCache now)\<rparr>) of
             (Inl e, this') \<Rightarrow> (Inl e, this')
           | (Inr _, this') \<Rightarrow> (Inr (createEmptyCache now), this'))
      | _ \<Rightarrow>
          (case save now (this\<lparr>cache := Some (createEmptyCache now)\<rparr>) of
             (Inl e, this') \<Rightarrow> (Inl e, this')
           | (Inr _, this') \<Rightarrow> (Inr (createEmptyCache now), this')))"


text \<open>
  \<open>CacheService.add(source, hash, timestamp)\<close>; a missing or empty \<open>timestamp\<close>
  becomes the current time. With \<open>_cache\<close> null, reading \<open>articles\<close> throws.
\<close>

definition add ::
  "cache_service \<Rightarrow> jsstring \<Rightarrow> jsstring \<Rightarrow> jsstring option \<Rightarrow> jsstring
     \<Rightarrow> js_error + cache_service" where
  "add this src hash timestamp now =
     (case cache this of
        None \<Rightarrow> Inl TypeError
      | Some c \<Rightarrow>
          let arts = (case obj_get (articles c) src of
                        None \<Rightarrow> obj_set src [] (articles c)
                      | Some _ \<Rightarrow> articles c);
              entries = (case obj_get arts src of None \<Rightarrow> [] | Some e \<Rightarrow> e);
              stamp = (case timestamp of
                         None \<Rightarrow> now
                       | Some t \<Rightarrow> if t \<noteq> [] then t else now)
          in Inr (this\<lparr>cache := Some (c\<lparr>articles := obj_set src (obj_set hash stamp entries) arts\<rparr>)\<rparr>))"




section \<open>DeduplicationService\<close>







text \<open>
  The hashes that the cache holds, and the articles of a list that \<open>filterNew\<close> lets
  through when the cache holds the hashes \<open>K\<close>.
\<close>

definition hashesOf :: "jsstring obj obj \<Rightarrow> jsstring set" where
  "hashesOf arts = (\<Union>(src, entries) \<in> set arts. fst ` set entries)"




section \<open>DiscordNotifier\<close>

text \<open>
  The notifier holds the webhook URL, as it comes from the environment, and a retry
  handler made with \<open>DISCORD_CONFIG.maxRetries\<close> and \<open>DISCORD_CONFIG.retryDelay\<close>; the
  handler takes \<open>maxDelay\<close> and \<open>jitter\<close> from \<open>RETRY_CONFIG\<close>.
\<close>

record notifier =
  webhookUrl :: jsvalue
  retryHandler :: retry_config

definition DISCORD_CONFIG_maxRetries :: int where
  "DISCORD_CONFIG_maxRetries = 3"

definition DISCORD_CONFIG_retryDelay :: rat where
  "DISCORD_CONFIG_retryDelay = 1000"

definition DiscordNotifier_new :: "jsvalue \<Rightarrow> notifier" where
  "DiscordNotifier_new webhook =
     \<lparr>webhookUrl = webhook,
      retryHandler = RetryHandler_new
        \<lparr>opt_maxRetries = Some DISCORD_CONFIG_maxRetries,
         opt_baseDelay = Some DISCORD_CONFIG_retryDelay,
         opt_maxDelay = None, opt_jitter = None\<rparr>\<rparr>"

text \<open>
  The transport. One call of \<open>axios.post\<close> either is rejected (\<open>axios\<close> throws) or
  resolves to a response with a status; \<open>transport k\<close> is what call number \<open>k\<close> of a
  run of \<open>send\<close> meets. The operation that \<open>_sendMessage\<close> hands to the retry handler
  returns \<open>{success: true, index}\<close> on a status from 200 to 299 and throws otherwise.
\<close>

datatype post_outcome =
    Rejected
  | Response nat

datatype notify_error =
    WebhookUrlNotSet
  | AxiosError
  | UnexpectedStatusCode nat

record send_result =
  success :: bool
  index :: nat

definition postMessage :: "post_outcome \<Rightarrow> nat \<Rightarrow> notify_error + send_result" where
  "postMessage response i =
     (case response of
        Rejected \<Rightarrow> Inl AxiosError
      | Response status \<Rightarrow>
          if 200 \<le> status \<and> status < 300 then Inr \<lparr>success = True, index = i\<rparr>
          else Inl (UnexpectedStatusCode status))"

text \<open>
  What a run of \<open>send\<close> does: its outcome (\<open>Inl\<close> what it throws), the calls of
  \<open>axios.post\<close> it made, each with the URL and the content posted, and the
  delays it slept, those of the retry handler and the 500 ms between two messages.
\<close>

record send_run =
  outcome :: "notify_error option + send_result list"
  posts :: "(jsvalue \<times> jsstring) list"
  waits :: "int list"

text \<open>
  The loop of \<open>send\<close> over the messages. \<open>i\<close> is the loop variable and \<open>calls\<close>
  counts the calls of \<open>axios.post\<close> made so far, so that the retries of each message
  meet the next outcomes of the transport and the next random draws.
\<close>

fun sendLoop ::
  "notifier \<Rightarrow> (nat \<Rightarrow> post_outcome) \<Rightarrow> (nat \<Rightarrow> rat) \<Rightarrow> jsstring list \<Rightarrow> nat \<Rightarrow> nat
     \<Rightarrow> send_result list \<Rightarrow> (jsvalue \<times> jsstring) list \<Rightarrow> int list \<Rightarrow> send_run" where
  "sendLoop this transport random [] i calls results posted waited =
     \<lparr>outcome = Inr results, posts = posted, waits = waited\<rparr>"
| "sendLoop this transport random (message # rest) i calls results posted waited =
     (let ex = execute (retryHandler this)
                 (\<lambda>k. postMessage (transport (calls + k)) (i + 1))
                 (\<lambda>k. random (calls + k));
          posted' = posted @ replicate (invocations ex) (webhookUrl this, message);
          waited' = waited @ sleeps ex
      in case result ex of
           Inl e \<Rightarrow> \<lparr>outcome = Inl e, posts = posted', waits = waited'\<rparr>
         | Inr r \<Rightarrow>
             sendLoop this transport random rest (i + 1) (calls + invocations ex)
               (results @ [r]) posted'
               (waited' @ (if rest \<noteq> [] then [500] else [])))"

text \<open>
  \<open>DiscordNotifier.send(messages)\<close>; a single message that is not an array is sent as
  the list of that one message. The only test on the URL is that it is truthy.
\<close>

datatype messages_arg =
    Messages "jsstring list"
  | Message jsstring

definition send ::
  "notifier \<Rightarrow> (nat \<Rightarrow> post_outcome) \<Rightarrow> (nat \<Rightarrow> rat) \<Rightarrow> messages_arg \<Rightarrow> send_run" where
  "send this transport random messages =
     (if \<not> truthy (webhookUrl this)
      then \<lparr>outcome = Inl (Some WebhookUrlNotSet), posts = [], waits = []\<rparr>
      else
        sendLoop this transport random
          (case messages of Messages ms \<Rightarrow> ms | Message m \<Rightarrow> [m]) 0 0 [] [] [])"

text \<open>
  \<open>DiscordNotifier.isValidWebhookUrl(url)\<close>, a static method that no code of the
  repository calls.
\<close>

definition isValidWebhookUrl :: "'u platform \<Rightarrow> jsvalue \<Rightarrow> bool" where
  "isValidWebhookUrl pf webhook =
     (if \<not> truthy webhook then False
      else case webhook of
        JString s \<Rightarrow>
          (case URL_new pf s of
             Some parsed \<Rightarrow>
               URL_hostname pf parsed = str ''discord.com''
               \<and> startsWith (URL_pathname pf parsed) (str ''/api/webhooks/'')
           | None \<Rightarrow> False)
      | _ \<Rightarrow> False)"

section \<open>Example data\<close>

text \<open>
  A stand-in for the platform, for the examples only: \<open>example_URL_new\<close> and
  \<open>example_sha256_hex\<close> list what Node's \<open>URL\<close> and \<open>crypto\<close> return on the strings
  that the examples feed to them (every other string is rejected, respectively mapped to
  the empty string, and no example depends on that). A parsed URL is its origin, its
  path and the name-value pairs of its query.
\<close>

record example_url =
  origin :: jsstring
  path :: jsstring
  query :: "(jsstring \<times> jsstring) list"

definition example_URL_new :: "jsstring \<Rightarrow> example_url option" where
  "example_URL_new s =
     (if s = str ''https://example.com/a''
      then Some \<lparr>origin = str ''https://example.com'', path = str ''/a'', query = []\<rparr>
      else if s = str ''https://example.com/a/?utm_source=rss''
      then Some \<lparr>origin = str ''https://example.com'', path = str ''/a/'',
                 query = [(str ''utm_source'', str ''rss'')]\<rparr>
      else if s = str ''https://example.com/a?utm_source=rss''
      then Some \<lparr>origin = str ''https://example.com'', path = str ''/a'',
                 query = [(str ''utm_source'', str ''rss'')]\<rparr>
      else if s = str ''https://example.com/hook''
      then Some \<lparr>origin = str ''https://example.com'', path = str ''/hook'', query = []\<rparr>
      else if s = str ''https://discord.com/api/webhooks/1/token''
      then Some \<lparr>origin = str ''https://discord.com'', path = str ''/api/webhooks/1/token'',
                 query = []\<rparr>
      else None)"

fun example_query_string :: "(jsstring \<times> jsstring) list \<Rightarrow> jsstring" where
  "example_query_string [] = []"
| "example_query_string [(k, v)] = k @ str ''='' @ v"
| "example_query_string ((k, v) # kvs) = k @ str ''='' @ v @ str ''&'' @ example_query_string kvs"

definition example_sha256_hex :: "jsstring \<Rightarrow> jsstring" where
  "example_sha256_hex s =
     (if s = str ''qiita:''
      then str ''9bae7a1c55e3c9664bc5d7f7a437e4220cd92e2b925ff6c139f0ddafec90b189''
      else if s = str ''qiita:https://example.com/a''
      then str ''5181b5b34a354f07d2d9eb12d25e5f6618f634887396851400565c5f5c227a79''
      else if s = str ''qiita:https://example.com/a/''
      then str ''677401bc982b2325d2e92dce2752601e46fdb5316d329d933b41b9068a807aab''
      else [])"

definition example_platform :: "example_url platform" where
  "example_platform =
     \<lparr>sha256_hex = example_sha256_hex,
      URL_new = example_URL_new,
      searchParams_delete = (\<lambda>name u. u\<lparr>query := filter (\<lambda>(k, v). k \<noteq> name) (query u)\<rparr>),
      URL_toString = (\<lambda>u. origin u @ path u
                         @ (if query u = [] then [] else str ''?'' @ example_query_string (query u))),
      URL_hostname = (\<lambda>u. drop 8 (origin u)),
      URL_pathname = path\<rparr>"



definition clock :: jsstring where
  "clock = str ''2026-01-28T07:15:00.000Z''"





definition old_store :: store where
  "old_store =
     \<lparr>version = str ''0.9'', lastUpdated = str ''2026-01-27T07:15:00.000Z'',
      articles = [(str ''qiita'',
         [(str ''5181b5b34a354f07d2d9eb12d25e5f6618f634887396851400565c5f5c227a79'',
           str ''2026-01-27T07:15:00.000Z'')])]\<rparr>"










section \<open>Properties of the message splitter\<close>

lemma bitlen_nat_bounds: "0 < n \<Longrightarrow> 2 ^ (bitlen_nat n - 1) \<le> n \<and> n < 2 ^ bitlen_nat n"
proof (induction n rule: bitlen_nat.induct)
  case (1 n)
  show ?case
  proof (cases "n div 2 = 0")
    case True
    with "1.prems" have "n = 1" by presburger
    then show ?thesis by (simp add: bitlen_nat.simps)
  next
    case False
    then have pos: "0 < n div 2" by simp
    from "1.prems" have n0: "n \<noteq> 0" by simp
    from "1.IH" [OF n0 pos]
    have lo: "2 ^ (bitlen_nat (n div 2) - 1) \<le> n div 2"
      and hi: "n div 2 < 2 ^ bitlen_nat (n div 2)" by simp_all
    have bpos: "0 < bitlen_nat (n div 2)"
      using False by (subst bitlen_nat.simps) simp
    have eq: "bitlen_nat n = Suc (bitlen_nat (n div 2))"
      using n0 by (subst bitlen_nat.simps) simp
    have "(2::nat) ^ (bitlen_nat n - 1) = 2 * 2 ^ (bitlen_nat (n div 2) - 1)"
      using bpos eq by (cases "bitlen_nat (n div 2)") simp_all
    also have "\<dots> \<le> 2 * (n div 2)" using lo by simp
    also have "\<dots> \<le> n" by simp
    finally have A: "2 ^ (bitlen_nat n - 1) \<le> n" .
    have "n < 2 * (n div 2) + 2" by presburger
    also have "\<dots> \<le> 2 * 2 ^ bitlen_nat (n div 2)" using hi by simp
    finally have B: "n < 2 ^ bitlen_nat n" using eq by simp
    from A B show ?thesis by simp
  qed
qed

lemma round53_upper: "round53 N * 2 ^ 53 \<le> N * 2 ^ 53 + N"
proof (cases "bitlen_nat N \<le> 53")
  case True
  then show ?thesis by (simp add: round53_def)
next
  case False
  define k where "k = bitlen_nat N - 53"
  define q where "q = N div 2 ^ k"
  define r where "r = N mod 2 ^ k"
  have kpos: "0 < k" using False by (simp add: k_def)
  have Npos: "0 < N" using False by (cases "N = 0") (simp_all add: bitlen_nat.simps)
  have "2 ^ (bitlen_nat N - 1) \<le> N" using bitlen_nat_bounds [OF Npos] by simp
  moreover have "bitlen_nat N - 1 = (k - 1) + 53" using False by (simp add: k_def)
  ultimately have big: "(2::nat) ^ (k - 1) * 2 ^ 53 \<le> N" by (simp add: power_add)
  have N: "N = q * 2 ^ k + r" unfolding q_def r_def by (rule div_mult_mod_eq [symmetric])
  have pk: "(2::nat) ^ k = 2 * 2 ^ (k - 1)" using kpos by (cases k) simp_all
  have R: "round53 N = (if r > 2 ^ (k - 1) \<or> (r = 2 ^ (k - 1) \<and> odd q) then q + 1 else q) * 2 ^ k"
    using False by (simp add: round53_def Let_def k_def q_def r_def)
  have "round53 N \<le> N + 2 ^ (k - 1)"
  proof (cases "r > 2 ^ (k - 1) \<or> (r = 2 ^ (k - 1) \<and> odd q)")
    case True
    then have "2 ^ (k - 1) \<le> r" by auto
    moreover have "round53 N = q * 2 ^ k + 2 ^ k" using True R by (simp add: algebra_simps)
    ultimately show ?thesis using N pk by linarith
  next
    case False
    then have "round53 N = q * 2 ^ k" using R by simp
    then show ?thesis using N by simp
  qed
  then have "round53 N * 2 ^ 53 \<le> (N + 2 ^ (k - 1)) * 2 ^ 53" by simp
  also have "\<dots> = N * 2 ^ 53 + 2 ^ (k - 1) * 2 ^ 53" by (simp add: algebra_simps)
  also have "\<dots> \<le> N * 2 ^ 53 + N" using big by simp
  finally show ?thesis .
qed

lemma round53_lower: "N * 2 ^ 53 \<le> round53 N * 2 ^ 53 + N"
proof (cases "bitlen_nat N \<le> 53")
  case True
  then show ?thesis by (simp add: round53_def)
next
  case False
  define k where "k = bitlen_nat N - 53"
  define q where "q = N div 2 ^ k"
  define r where "r = N mod 2 ^ k"
  have kpos: "0 < k" using False by (simp add: k_def)
  have Npos: "0 < N" using False by (cases "N = 0") (simp_all add: bitlen_nat.simps)
  have "2 ^ (bitlen_nat N - 1) \<le> N" using bitlen_nat_bounds [OF Npos] by simp
  moreover have "bitlen_nat N - 1 = (k - 1) + 53" using False by (simp add: k_def)
  ultimately have big: "(2::nat) ^ (k - 1) * 2 ^ 53 \<le> N" by (simp add: power_add)
  have N: "N = q * 2 ^ k + r" unfolding q_def r_def by (rule div_mult_mod_eq [symmetric])
  have rlt: "r < 2 ^ k" by (simp add: r_def)
  have pk: "(2::nat) ^ k = 2 * 2 ^ (k - 1)" using kpos by (cases k) simp_all
  have R: "round53 N = (if r > 2 ^ (k - 1) \<or> (r = 2 ^ (k - 1) \<and> odd q) then q + 1 else q) * 2 ^ k"
    using False by (simp add: round53_def Let_def k_def q_def r_def)
  have "N \<le> round53 N + 2 ^ (k - 1)"
  proof (cases "r > 2 ^ (k - 1) \<or> (r = 2 ^ (k - 1) \<and> odd q)")
    case True
    then have "round53 N = q * 2 ^ k + 2 ^ k" using R by (simp add: algebra_simps)
    then show ?thesis using N rlt by linarith
  next
    case False
    then have "r \<le> 2 ^ (k - 1)" by auto
    moreover have "round53 N = q * 2 ^ k" using False R by simp
    ultimately show ?thesis using N by linarith
  qed
  then have "N * 2 ^ 53 \<le> (round53 N + 2 ^ (k - 1)) * 2 ^ 53" by simp
  also have "\<dots> = round53 N * 2 ^ 53 + 2 ^ (k - 1) * 2 ^ 53" by (simp add: algebra_simps)
  also have "\<dots> \<le> round53 N * 2 ^ 53 + N" using big by simp
  finally show ?thesis .
qed


lemma lastIndexOf_bound:
  assumes "lastIndexOf text pat = int i"
  shows "i + length pat \<le> length text"
proof -
  let ?P = "\<lambda>j. take (length pat) (drop j text) = pat"
  let ?xs = "filter ?P (rev [0..<Suc (length text)])"
  from assms obtain rest where "?xs = i # rest"
    by (auto simp: lastIndexOf_def split: list.splits)
  then have "i \<in> set ?xs" by simp
  then have i: "i \<le> length text" and P: "?P i" by (auto simp del: upt_Suc)
  from P have "length pat = length (take (length pat) (drop i text))" by simp
  then have "length pat \<le> length text - i" by simp
  with i show ?thesis by simp
qed

lemma lastIndexOf_ge: "- 1 \<le> lastIndexOf text pat"
  by (simp add: lastIndexOf_def split: list.splits)

lemma jsGreater_pos: "jsGreater i d \<Longrightarrow> 0 < i"
  by (simp add: jsGreater_def zero_less_mult_iff) 

lemma jsGreater_lastIndexOf:
  assumes "jsGreater (lastIndexOf text pat) d"
  shows "nat (lastIndexOf text pat + int (length pat)) \<le> length text"
proof -
  from jsGreater_pos [OF assms] obtain i where i: "lastIndexOf text pat = int i"
    using zero_le_imp_eq_int [of "lastIndexOf text pat"] by auto
  from lastIndexOf_bound [OF i] show ?thesis by (simp add: i)
qed

lemma jsFloor_0_9_le: "jsFloor (jsMul n double_0_9) \<le> n"
proof -
  have "round53 (n * double_0_9) * 2 ^ 53 \<le> n * double_0_9 * 2 ^ 53 + n * double_0_9"
    by (rule round53_upper)
  then have "round53 (n * double_0_9) < (n + 1) * 2 ^ 53"
    by (simp add: double_0_9_def)
  then show ?thesis
    by (simp add: jsFloor_def jsMul_def less_mult_imp_div_less)
qed

lemma findSplitPoint_le: "findSplitPoint text \<le> length text"
  using jsGreater_lastIndexOf [of "text" nl2] jsGreater_lastIndexOf [of "text" nl]
    jsFloor_0_9_le [of "length text"]
  by (simp add: findSplitPoint_def Let_def nl_def nl2_def)

lemma jsMul_lower:
  assumes "c * (2 ^ 53 - 1) \<ge> 2 ^ 105" and "2 * m \<le> n"
  shows "m * 2 ^ 53 \<le> jsMul n c"
proof -
  have "n * c * 2 ^ 53 \<le> round53 (n * c) * 2 ^ 53 + n * c"
    by (rule round53_lower)
  then have "n * (c * (2 ^ 53 - 1)) \<le> round53 (n * c) * 2 ^ 53"
    by (simp add: algebra_simps)
  moreover have "n * 2 ^ 105 \<le> n * (c * (2 ^ 53 - 1))"
    using assms(1) by simp
  moreover have "m * 2 ^ 53 * 2 ^ 53 \<le> n * 2 ^ 105"
    using assms(2) by simp
  ultimately have "m * 2 ^ 53 * 2 ^ 53 \<le> round53 (n * c) * 2 ^ 53"
    by linarith
  then show ?thesis by (simp add: jsMul_def)
qed

lemma findSplitPoint_ge:
  assumes "2 * m \<le> length text"
  shows "m \<le> findSplitPoint text"
proof -
  let ?n = "length text"
  have a: "m * 2 ^ 53 \<le> jsMul ?n double_0_7"
    by (rule jsMul_lower [OF _ assms]) (simp add: double_0_7_def)
  have b: "m * 2 ^ 53 \<le> jsMul ?n double_0_8"
    by (rule jsMul_lower [OF _ assms]) (simp add: double_0_8_def)
  have c: "m * 2 ^ 53 \<le> jsMul ?n double_0_9"
    by (rule jsMul_lower [OF _ assms]) (simp add: double_0_9_def)
  have gt: "int m < i" if "jsGreater i d" "m * 2 ^ 53 \<le> d" for i d
  proof -
    from that have "int m * 2 ^ 53 < i * 2 ^ 53"
      unfolding jsGreater_def using of_nat_mono [of "m * 2 ^ 53" d] by simp
    then show ?thesis by simp
  qed
  have fl: "m \<le> jsFloor (jsMul ?n double_0_9)"
    using c by (simp add: jsFloor_def less_eq_div_iff_mult_less_eq)
  show ?thesis
    using gt [OF _ a, of "lastIndexOf text nl2"] gt [OF _ b, of "lastIndexOf text nl"] fl
    by (auto simp: findSplitPoint_def Let_def)
qed


lemma length_trim_le: "length (trim s) \<le> length s"
proof -
  have "length (trim s) \<le> length (dropWhile isWhiteSpace s)"
    unfolding trim_def using length_dropWhile_le [of isWhiteSpace "rev (dropWhile isWhiteSpace s)"]
    by simp
  also have "\<dots> \<le> length s" by (rule length_dropWhile_le)
  finally show ?thesis .
qed

lemma splitLoop_rule:
  assumes run: "splitLoop L h cs cur = Some r"
    and init: "I cs cur"
    and step: "\<And>cs cur. I cs cur \<Longrightarrow> L < length cur \<Longrightarrow>
      I (cs @ [take (findSplitPoint (take L cur)) cur])
        (h @ nl2 @ trim (drop (findSplitPoint (take L cur)) cur) @ nl2)"
  shows "I (fst r) (snd r) \<and> length (snd r) \<le> L"
proof -
  have "L = L \<longrightarrow> h = h \<longrightarrow> I cs cur \<longrightarrow> I (fst r) (snd r) \<and> length (snd r) \<le> L"
  proof (rule splitLoop.raw_induct
      [where P = "\<lambda>L' h' cs cur r. L' = L \<longrightarrow> h' = h \<longrightarrow> I cs cur
                    \<longrightarrow> I (fst r) (snd r) \<and> length (snd r) \<le> L", OF _ run],
      goal_cases)
    case (1 loop L' h' cs cur r)
    note IH = "1"(1) and body = "1"(2)
    show ?case
    proof (intro impI)
      assume eq: "L' = L" "h' = h" and inv: "I cs cur"
      show "I (fst r) (snd r) \<and> length (snd r) \<le> L"
      proof (cases "L < length cur")
        case True
        with body eq
        have "loop L h (cs @ [take (findSplitPoint (take L cur)) cur])
                (h @ nl2 @ trim (drop (findSplitPoint (take L cur)) cur) @ nl2) = Some r"
          by (simp add: Let_def)
        from IH [OF this] step [OF inv True] show ?thesis by simp
      next
        case False
        with body eq have "r = (cs, cur)" by simp
        with inv False show ?thesis by simp
      qed
    qed
  qed
  with init show ?thesis by simp
qed

lemma splitLoop_terminates:
  assumes "2 * (length h + 5) \<le> L"
  shows "\<exists>r. splitLoop L h cs cur = Some r"
proof (induction "length cur" arbitrary: cs cur rule: less_induct)
  case less
  show ?case
  proof (cases "L < length cur")
    case False
    then show ?thesis by (subst splitLoop.simps) simp
  next
    case True
    define sp where "sp = findSplitPoint (take L cur)"
    define cur' where "cur' = h @ nl2 @ trim (drop sp cur) @ nl2"
    have "length (take L cur) = L" using True by simp
    with assms have "length h + 5 \<le> sp"
      unfolding sp_def by (intro findSplitPoint_ge) simp
    moreover have "length cur' \<le> length h + 4 + (length cur - sp)"
      using length_trim_le [of "drop sp cur"] by (simp add: cur'_def nl2_def)
    moreover have "sp \<le> L"
      using findSplitPoint_le [of "take L cur"] True by (simp add: sp_def)
    ultimately have "length cur' < length cur" using True by linarith
    from less [OF this] obtain r where "splitLoop L h (cs @ [take sp cur]) cur' = Some r"
      by blast
    then show ?thesis
      using True by (subst splitLoop.simps) (simp add: Let_def sp_def cur'_def)
  qed
qed


lemma splitLoop_withinLimit:
  assumes "splitLoop L h cs cur = Some r" and "list_all (\<lambda>c. length c \<le> L) cs"
  shows "withinLimit L h r"
proof -
  have "list_all (\<lambda>c. length c \<le> L) (fst r) \<and> length (snd r) \<le> L"
  proof (rule splitLoop_rule [where I = "\<lambda>cs cur. list_all (\<lambda>c. length c \<le> L) cs", OF assms])
    fix cs :: "jsstring list" and cur :: jsstring
    assume "list_all (\<lambda>c. length c \<le> L) cs" and "L < length cur"
    moreover have "findSplitPoint (take L cur) \<le> L"
      using findSplitPoint_le [of "take L cur"] by simp
    ultimately show "list_all (\<lambda>c. length c \<le> L) (cs @ [take (findSplitPoint (take L cur)) cur])"
      by simp
  qed
  then show ?thesis by (simp add: withinLimit_def)
qed

lemma sectionStep_withinLimit:
  assumes "sectionStep L h st s = Some st'" and "withinLimit L h st"
  shows "withinLimit L h st'"
proof (cases "L < length (snd st @ s @ nl2)")
  case True
  let ?cs = "if length (snd st) > length h + 2 then fst st @ [snd st] else fst st"
  from assms(1) True have run: "splitLoop L h ?cs (h @ nl2 @ s @ nl2) = Some st'"
    by (simp add: sectionStep_def Let_def)
  have "list_all (\<lambda>c. length c \<le> L) ?cs"
    using assms(2) by (auto simp: withinLimit_def)
  from splitLoop_withinLimit [OF run this] show ?thesis .
next
  case False
  with assms(1) have "st' = (fst st, snd st @ s @ nl2)"
    by (auto simp: sectionStep_def Let_def)
  with assms(2) False show ?thesis by (simp add: withinLimit_def)
qed

lemma sectionLoop_withinLimit:
  "sectionLoop L h st secs = Some st' \<Longrightarrow> withinLimit L h st \<Longrightarrow> withinLimit L h st'"
proof (induction secs arbitrary: st)
  case Nil
  then show ?case by simp
next
  case (Cons s secs)
  then show ?case
    by (auto split: option.splits dest: sectionStep_withinLimit)
qed

lemma addFooter_withinLimit:
  assumes "withinLimit L h st" and "length h + 2 + length f \<le> L"
  shows "list_all (\<lambda>c. length c \<le> L) (addFooter L h f st)"
  using assms by (auto simp: withinLimit_def addFooter_def Let_def nl2_def)

lemma sectionStep_terminates:
  "2 * (length h + 5) \<le> L \<Longrightarrow> \<exists>st'. sectionStep L h st s = Some st'"
  using splitLoop_terminates [of h L]
  by (simp add: sectionStep_def Let_def)

lemma sectionLoop_terminates:
  assumes "2 * (length h + 5) \<le> L"
  shows "\<exists>st'. sectionLoop L h st secs = Some st'"
proof (induction secs arbitrary: st)
  case Nil
  show ?case by simp
next
  case (Cons s secs)
  from sectionStep_terminates [OF assms] obtain st1 where "sectionStep L h st s = Some st1"
    by blast
  with Cons [of st1] show ?case by simp
qed

text \<open>The equations that evaluate the splitter on a concrete input.\<close>

lemmas splitter_eval = splitIntoChunks_def sectionStep_def addFooter_def splitLoop.simps
  findSplitPoint_def lastIndexOf_def jsGreater_def jsMul_def round53_def bitlen_nat.simps
  jsFloor_def trim_def isWhiteSpace_def str_def nl_def nl2_def
  double_0_7_def double_0_8_def double_0_9_def Let_def

text \<open>
  Claim C1, packing ceiling. As stated (for every header, footer and limit) it fails: the
  chunk \<open>header + '\n\n' + footer\<close> is pushed without a length check. What holds: when
  that chunk fits, \<open>length header + 2 + length footer \<le> maxLength\<close>, every chunk of
  every list that \<open>_splitIntoChunks\<close> returns is within \<open>maxLength\<close>; and the call does
  return whenever \<open>2 * (length header + 5) \<le> maxLength\<close>, which makes every cut of the
  \<open>while\<close> loop fall behind the repeated header.
\<close>

theorem splitIntoChunks_ceiling:
  assumes "length header + 2 + length footer \<le> maxLength"
  shows "(\<forall>chunks. splitIntoChunks maxLength header sections footer = Some chunks
            \<longrightarrow> list_all (\<lambda>c. length c \<le> maxLength) chunks)
       \<and> (2 * (length header + 5) \<le> maxLength
            \<longrightarrow> (\<exists>chunks. splitIntoChunks maxLength header sections footer = Some chunks))"
proof (intro conjI allI impI)
  fix chunks
  assume "splitIntoChunks maxLength header sections footer = Some chunks"
  then obtain st where st: "sectionLoop maxLength header ([], header @ nl2) sections = Some st"
    and chunks: "chunks = addFooter maxLength header footer st"
    by (auto simp: splitIntoChunks_def split: option.splits)
  have "withinLimit maxLength header ([], header @ nl2)"
    by (simp add: withinLimit_def nl2_def)
  from sectionLoop_withinLimit [OF st this] assms
  show "list_all (\<lambda>c. length c \<le> maxLength) chunks"
    unfolding chunks by (rule addFooter_withinLimit)
next
  assume "2 * (length header + 5) \<le> maxLength"
  from sectionLoop_terminates [OF this]
  show "\<exists>chunks. splitIntoChunks maxLength header sections footer = Some chunks"
    by (simp add: splitIntoChunks_def split: option.splits)
qed


theorem splitIntoChunks_ceiling_witness:
  "length (str ''H'') + 2 + length (str ''F'') \<le> 12
   \<and> 2 * (length (str ''H'') + 5) \<le> 12
   \<and> splitIntoChunks 12 (str ''H'') [str ''AAAAAA BBB'', str ''CC''] (str ''F'')
       = Some [str ''H'' @ nl2 @ str ''AAAAAA '',
               str ''H'' @ nl2 @ str ''BBB'' @ nl2 @ str ''CC'' @ nl2,
               str ''H'' @ nl2 @ str ''F'']
   \<and> list_all (\<lambda>c. length c \<le> 12)
         [str ''H'' @ nl2 @ str ''AAAAAA '',
          str ''H'' @ nl2 @ str ''BBB'' @ nl2 @ str ''CC'' @ nl2,
          str ''H'' @ nl2 @ str ''F'']"
proof -
  have fits: "length (str ''H'') + 2 + length (str ''F'') \<le> 12"
    by (simp add: str_def)
  have run: "splitIntoChunks 12 (str ''H'') [str ''AAAAAA BBB'', str ''CC''] (str ''F'')
       = Some [str ''H'' @ nl2 @ str ''AAAAAA '',
               str ''H'' @ nl2 @ str ''BBB'' @ nl2 @ str ''CC'' @ nl2,
               str ''H'' @ nl2 @ str ''F'']"
    by (simp add: splitter_eval)
  from splitIntoChunks_ceiling [OF fits, of "[str ''AAAAAA BBB'', str ''CC'']"] run fits
  show ?thesis by (simp add: str_def)
qed

text \<open>
  Claim C1 fails as stated: with header \<open>H\<close>, footer \<open>FFFF\<close>, no section and limit 5
  the only chunk is \<open>H\n\nFFFF\<close>, seven code units long.
\<close>

theorem splitIntoChunks_ceiling_counterexample:
  "splitIntoChunks 5 (str ''H'') [] (str ''FFFF'') = Some [str ''H'' @ nl2 @ str ''FFFF'']
   \<and> \<not> length (str ''H'' @ nl2 @ str ''FFFF'') \<le> 5"
  by (simp add: splitter_eval)

lemma nonWhite_Nil [simp]: "nonWhite [] = []"
  by (simp add: nonWhite_def)


lemma nonWhite_nl2 [simp]: "nonWhite nl2 = []"
  by (simp add: nonWhite_def nl2_def isWhiteSpace_def)

lemma filter_not_dropWhile: "filter (\<lambda>x. \<not> P x) (dropWhile P xs) = filter (\<lambda>x. \<not> P x) xs"
  by (induction xs) simp_all

lemma nonWhite_trim [simp]: "nonWhite (trim s) = nonWhite s"
proof -
  have "nonWhite (trim s) = rev (nonWhite (dropWhile isWhiteSpace (rev (dropWhile isWhiteSpace s))))"
    by (simp add: nonWhite_def trim_def rev_filter)
  also have "\<dots> = rev (nonWhite (rev (dropWhile isWhiteSpace s)))"
    by (simp add: nonWhite_def filter_not_dropWhile)
  also have "\<dots> = nonWhite (dropWhile isWhiteSpace s)"
    by (simp add: nonWhite_def rev_filter)
  also have "\<dots> = nonWhite s"
    by (simp add: nonWhite_def filter_not_dropWhile)
  finally show ?thesis .
qed











text \<open>
  The \<open>while\<close> loop can run for ever. With the header \<open>HHHHHHHH\<close> and the limit 10
  the last blank line within the first ten code units of the open chunk is the one that
  follows the header, and it lies beyond 70 percent of them; the loop cuts there, pushes
  the bare header and opens the same chunk again.
\<close>

lemma splitLoop_diverges:
  "splitLoop 10 (str ''HHHHHHHH'') chunks (str ''HHHHHHHH'' @ nl2 @ str ''AAAA'' @ nl2) = None"
proof -
  let ?h = "str ''HHHHHHHH''"
  let ?cur = "?h @ nl2 @ str ''AAAA'' @ nl2"
  have sp: "findSplitPoint (take 10 ?cur) = 10"
    by (simp add: splitter_eval)
  have again: "?h @ nl2 @ trim (drop 10 ?cur) @ nl2 = ?cur"
    by (simp add: splitter_eval)
  have never: "\<not> (L = 10 \<and> h = ?h \<and> cur = ?cur)"
    if "splitLoop L h cs cur = Some r" for L h cs cur r
  proof (rule splitLoop.raw_induct
      [where P = "\<lambda>L h cs cur r. \<not> (L = 10 \<and> h = ?h \<and> cur = ?cur)", OF _ that], goal_cases)
    case (1 loop L h cs cur r)
    show ?case
    proof
      assume eq: "L = 10 \<and> h = ?h \<and> cur = ?cur"
      then have "10 < length cur" by (simp add: str_def nl2_def)
      with "1"(2) eq sp again
      have "loop 10 ?h (cs @ [take 10 ?cur]) ?cur = Some r"
        by (simp add: Let_def)
      from "1"(1) [OF this] show False by simp
    qed
  qed
  show ?thesis
  proof (cases "splitLoop 10 ?h chunks ?cur")
    case None
    then show ?thesis .
  next
    case (Some r)
    from never [OF Some] show ?thesis by simp
  qed
qed

lemma splitIntoChunks_diverges:
  "splitIntoChunks 10 (str ''HHHHHHHH'') [str ''AAAA''] (str ''F'') = None"
proof -
  have "sectionStep 10 (str ''HHHHHHHH'') ([], str ''HHHHHHHH'' @ nl2) (str ''AAAA'') = None"
    using splitLoop_diverges [of "[]"]
    by (simp add: sectionStep_def Let_def str_def nl2_def)
  then show ?thesis by (simp add: splitIntoChunks_def)
qed




text \<open>
  Claim C9, the scenario with header \<open>H\<close>, footer \<open>F\<close>, limit 5 and the sections
  \<open>AAAA\<close> and \<open>BB\<close>. The claim expects two chunks; \<open>H\n\nAAAA\n\n\<close> has nine code
  units, so the first section is hard-split one code unit at a time. The result has nine
  chunks: \<open>H\n\nA\<close> four times, \<open>H\n\n\n\n\<close>, \<open>H\n\nB\<close> twice, \<open>H\n\n\n\n\<close> again,
  and \<open>H\n\nF\<close>, since the footer does not fit the last open chunk.
\<close>

theorem splitIntoChunks_scenario:
  "splitIntoChunks 5 (str ''H'') [str ''AAAA'', str ''BB''] (str ''F'')
     = Some [str ''H'' @ nl2 @ str ''A'', str ''H'' @ nl2 @ str ''A'',
             str ''H'' @ nl2 @ str ''A'', str ''H'' @ nl2 @ str ''A'',
             str ''H'' @ nl2 @ nl2,
             str ''H'' @ nl2 @ str ''B'', str ''H'' @ nl2 @ str ''B'',
             str ''H'' @ nl2 @ nl2,
             str ''H'' @ nl2 @ str ''F'']"
  by (simp add: splitter_eval)

text \<open>Claim C9 fails as stated: the scenario yields nine chunks, not two.\<close>

theorem splitIntoChunks_scenario_counterexample:
  "map_option length
     (splitIntoChunks 5 (str ''H'') [str ''AAAA'', str ''BB''] (str ''F'')) = Some 9"
  by (simp add: splitter_eval)

section \<open>Properties of the retry handler\<close>

lemma executeLoop_invocations:
  "invocations (executeLoop this fn random attempt lastError slept)
     \<le> max attempt (nat (maxRetries this + 1))"
proof (induction this fn random attempt lastError slept rule: executeLoop.induct)
  case (1 this fn random attempt lastError slept)
  show ?case
  proof (cases "int attempt \<le> maxRetries this")
    case False
    then show ?thesis by (subst executeLoop.simps) simp
  next
    case True
    show ?thesis
    proof (cases "fn attempt")
      case (Inr v)
      with True show ?thesis by (subst executeLoop.simps) auto
    next
      case (Inl error)
      show ?thesis
      proof (cases "int attempt = maxRetries this")
        case True
        with Inl show ?thesis by (subst executeLoop.simps) auto
      next
        case False
        from "1.IH" [OF True Inl False] True False Inl
        show ?thesis by (subst executeLoop.simps) auto
      qed
    qed
  qed
qed

lemma executeLoop_success:
  assumes "fn k = Inr v" and "int k \<le> maxRetries this" and "attempt \<le> k"
    and "\<And>j. attempt \<le> j \<Longrightarrow> j < k \<Longrightarrow> isl (fn j)"
  shows "result (executeLoop this fn random attempt lastError slept) = Inr v
       \<and> invocations (executeLoop this fn random attempt lastError slept) = k + 1"
  using assms(3,4)
proof (induction "k - attempt" arbitrary: attempt lastError slept)
  case 0
  then have "attempt = k" by simp
  with assms(1,2) show ?case by (subst (1 2) executeLoop.simps) simp
next
  case (Suc d)
  then have lt: "attempt < k" by simp
  with Suc.prems(2) [of attempt] obtain error where err: "fn attempt = Inl error"
    by (cases "fn attempt") auto
  from lt assms(2) have le: "int attempt \<le> maxRetries this" and ne: "int attempt \<noteq> maxRetries this"
    by simp_all
  have "d = k - (attempt + 1)" using Suc.hyps(2) by simp
  from Suc.hyps(1) [OF this] lt Suc.prems(2)
  have "result (executeLoop this fn random (attempt + 1) (Some error)
            (slept @ [calculateDelay this attempt (random attempt)])) = Inr v
      \<and> invocations (executeLoop this fn random (attempt + 1) (Some error)
            (slept @ [calculateDelay this attempt (random attempt)])) = k + 1"
    by simp
  with le ne err show ?case by (subst (1 2) executeLoop.simps) simp
qed

lemma executeLoop_exhausted:
  assumes "int attempt \<le> maxRetries this"
    and "\<And>j. attempt \<le> j \<Longrightarrow> int j \<le> maxRetries this \<Longrightarrow> isl (fn j)"
  shows "result (executeLoop this fn random attempt lastError slept)
           = Inl (Some (projl (fn (nat (maxRetries this)))))
       \<and> invocations (executeLoop this fn random attempt lastError slept)
           = nat (maxRetries this) + 1"
  using assms
proof (induction "nat (maxRetries this) - attempt" arbitrary: attempt lastError slept)
  case 0
  then have eq: "int attempt = maxRetries this" by simp
  with "0.prems"(2) [of attempt] obtain error where err: "fn attempt = Inl error"
    by (cases "fn attempt") auto
  from eq have "nat (maxRetries this) = attempt" by simp
  with eq err show ?case by (subst (1 2) executeLoop.simps) simp
next
  case (Suc d)
  then have lt: "int attempt < maxRetries this" by simp
  with Suc.prems(2) [of attempt] obtain error where err: "fn attempt = Inl error"
    by (cases "fn attempt") auto
  have "d = nat (maxRetries this) - (attempt + 1)" using Suc.hyps(2) by simp
  moreover have "int (attempt + 1) \<le> maxRetries this" using lt by simp
  ultimately have
    "result (executeLoop this fn random (attempt + 1) (Some error)
        (slept @ [calculateDelay this attempt (random attempt)]))
       = Inl (Some (projl (fn (nat (maxRetries this)))))
     \<and> invocations (executeLoop this fn random (attempt + 1) (Some error)
        (slept @ [calculateDelay this attempt (random attempt)]))
       = nat (maxRetries this) + 1"
    using Suc.prems(2) by (intro Suc.hyps(1)) simp_all
  with lt err show ?case by (subst (1 2) executeLoop.simps) simp
qed

lemma executeLoop_invocations_ge:
  "int attempt \<le> maxRetries this
   \<Longrightarrow> attempt + 1 \<le> invocations (executeLoop this fn random attempt lastError slept)"
proof (induction this fn random attempt lastError slept rule: executeLoop.induct)
  case (1 this fn random attempt lastError slept)
  note le = "1.prems"
  show ?case
  proof (cases "fn attempt")
    case (Inr v)
    with le show ?thesis by (subst executeLoop.simps) simp
  next
    case (Inl error)
    show ?thesis
    proof (cases "int attempt = maxRetries this")
      case True
      with Inl show ?thesis by (subst executeLoop.simps) simp
    next
      case False
      with le have "int (attempt + 1) \<le> maxRetries this" by simp
      from "1.IH" [OF le Inl False this] le False Inl
      show ?thesis by (subst executeLoop.simps) simp
    qed
  qed
qed






text \<open>
  Claim C6. For every \<open>maxRetries \<ge> 0\<close>, \<open>execute\<close> invokes the operation at most
  \<open>maxRetries + 1\<close> times; when every invocation fails it throws the error of the last
  one, number \<open>maxRetries\<close>, as it is, after \<open>maxRetries + 1\<close> invocations; and when
  invocation \<open>k\<close> is the first to succeed it returns that value after exactly
  \<open>k + 1\<close> invocations.
\<close>

theorem execute_attempts:
  assumes "0 \<le> maxRetries this"
  shows "int (invocations (execute this fn random)) \<le> maxRetries this + 1
    \<and> ((\<forall>k. int k \<le> maxRetries this \<longrightarrow> isl (fn k))
        \<longrightarrow> result (execute this fn random) = Inl (Some (projl (fn (nat (maxRetries this)))))
          \<and> invocations (execute this fn random) = nat (maxRetries this) + 1)
    \<and> (\<forall>k v. int k \<le> maxRetries this \<and> (\<forall>j<k. isl (fn j)) \<and> fn k = Inr v
        \<longrightarrow> result (execute this fn random) = Inr v
          \<and> invocations (execute this fn random) = k + 1)"
proof (intro conjI allI impI)
  show "int (invocations (execute this fn random)) \<le> maxRetries this + 1"
    using executeLoop_invocations [of this fn random 0 None "[]"] assms
    by (simp add: execute_def)
next
  assume "\<forall>k. int k \<le> maxRetries this \<longrightarrow> isl (fn k)"
  then have "result (executeLoop this fn random 0 None [])
               = Inl (Some (projl (fn (nat (maxRetries this)))))
           \<and> invocations (executeLoop this fn random 0 None []) = nat (maxRetries this) + 1"
    using assms by (intro executeLoop_exhausted) simp_all
  then show "result (execute this fn random) = Inl (Some (projl (fn (nat (maxRetries this)))))"
    and "invocations (execute this fn random) = nat (maxRetries this) + 1"
    by (simp_all add: execute_def)
next
  fix k v
  assume a: "int k \<le> maxRetries this \<and> (\<forall>j<k. isl (fn j)) \<and> fn k = Inr v"
  then have "result (executeLoop this fn random 0 None []) = Inr v
           \<and> invocations (executeLoop this fn random 0 None []) = k + 1"
    by (intro executeLoop_success) simp_all
  then show "result (execute this fn random) = Inr v"
    and "invocations (execute this fn random) = k + 1"
    by (simp_all add: execute_def)
qed

text \<open>
  The scenario of the specification: under \<open>maxRetries = 3\<close> an operation that fails
  twice with status 500 and then succeeds is invoked exactly three times.
\<close>

theorem execute_attempts_witness:
  "0 \<le> maxRetries RETRY_CONFIG
   \<and> result (execute RETRY_CONFIG (\<lambda>k. if k < 2 then Inl (500 :: nat) else Inr ''sent'')
        (\<lambda>k. 0)) = Inr ''sent''
   \<and> invocations (execute RETRY_CONFIG (\<lambda>k. if k < 2 then Inl (500 :: nat) else Inr ''sent'')
        (\<lambda>k. 0)) = 3"
proof -
  let ?fn = "\<lambda>k :: nat. if k < 2 then Inl (500 :: nat) else Inr ''sent''"
  have nonneg: "0 \<le> maxRetries RETRY_CONFIG"
    by (simp add: RETRY_CONFIG_def)
  have "int 2 \<le> maxRetries RETRY_CONFIG \<and> (\<forall>j<2. isl (?fn j)) \<and> ?fn 2 = Inr ''sent''"
    by (simp add: RETRY_CONFIG_def)
  with execute_attempts [OF nonneg, of ?fn "\<lambda>k. 0"]
  have "result (execute RETRY_CONFIG ?fn (\<lambda>k. 0)) = Inr ''sent''
      \<and> invocations (execute RETRY_CONFIG ?fn (\<lambda>k. 0)) = 2 + 1"
    by blast
  with nonneg show ?thesis by simp
qed




section \<open>Properties of the cache and of deduplication\<close>




lemma hashesOf_Nil [simp]: "hashesOf [] = {}"
  by (simp add: hashesOf_def)

lemma hashesOf_Cons [simp]: "hashesOf ((src, entries) # arts) = fst ` set entries \<union> hashesOf arts"
  by (simp add: hashesOf_def)













text \<open>
  Claim C4, version mismatch in \<open>load\<close>. The cache in memory becomes the empty cache of
  the current version and nothing is thrown, but \<open>load\<close> does not write it: the file
  still holds the store of version \<open>0.9\<close> with its entry. The two \<open>catch\<close> branches
  do save, as the second part shows for a file that \<open>JSON.parse\<close> rejects.
\<close>

theorem load_version_mismatch:
  "load clock \<lparr>cache = None, cacheFile = Json old_store, writable = True\<rparr>
     = (Inr (createEmptyCache clock),
        \<lparr>cache = Some (createEmptyCache clock), cacheFile = Json old_store, writable = True\<rparr>)
   \<and> load clock \<lparr>cache = None, cacheFile = Garbage, writable = True\<rparr>
     = (Inr (createEmptyCache clock),
        \<lparr>cache = Some (createEmptyCache clock), cacheFile = Json (createEmptyCache clock),
         writable = True\<rparr>)"
  by (simp add: load_def save_def old_store_def createEmptyCache_def CACHE_CONFIG_version_def
      str_def Let_def)

text \<open>The same for every stored cache of another version: the file is left as it is.\<close>

lemma load_other_version:
  "version data \<noteq> CACHE_CONFIG_version
   \<Longrightarrow> load now this = (Inr (createEmptyCache now), this\<lparr>cache := Some (createEmptyCache now)\<rparr>)"
  if "cacheFile this = Json data"
  using that by (simp add: load_def Let_def)

section \<open>Properties of the fingerprint\<close>

































section \<open>Properties of the notifier\<close>

lemma send_unset:
  "\<not> truthy (webhookUrl this)
   \<Longrightarrow> send this transport random messages
       = \<lparr>outcome = Inl (Some WebhookUrlNotSet), posts = [], waits = []\<rparr>"
  by (simp add: send_def)

lemma sendLoop_posts_prefix:
  "\<exists>more. posts (sendLoop this transport random ms i calls results posted waited) = posted @ more"
proof (induction ms arbitrary: i calls results posted waited)
  case Nil
  show ?case by simp
next
  case (Cons m ms)
  let ?ex = "execute (retryHandler this) (\<lambda>k. postMessage (transport (calls + k)) (i + 1))
               (\<lambda>k. random (calls + k))"
  let ?posted = "posted @ replicate (invocations ?ex) (webhookUrl this, m)"
  show ?case
  proof (cases "result ?ex")
    case (Inl e)
    then show ?thesis by (simp add: Let_def)
  next
    case (Inr r)
    from Cons.IH [of "i + 1" "calls + invocations ?ex" "results @ [r]" ?posted
        "(waited @ sleeps ?ex) @ (if ms \<noteq> [] then [500] else [])"]
    obtain more where
      "posts (sendLoop this transport random ms (i + 1) (calls + invocations ?ex)
          (results @ [r]) ?posted ((waited @ sleeps ?ex) @ (if ms \<noteq> [] then [500] else [])))
        = ?posted @ more"
      by blast
    with Inr show ?thesis by (simp add: Let_def)
  qed
qed

text \<open>
  With a truthy URL, whatever its shape, the first message is posted to it: \<open>send\<close>
  never asks \<open>isValidWebhookUrl\<close>.
\<close>

lemma send_posts_first:
  assumes "truthy (webhookUrl this)" and "0 \<le> maxRetries (retryHandler this)"
  shows "\<exists>more. posts (send this transport random (Messages (m # ms)))
           = (webhookUrl this, m) # more"
proof -
  let ?ex = "execute (retryHandler this) (\<lambda>k. postMessage (transport k) (Suc 0)) random"
  have "0 + 1 \<le> invocations ?ex"
    unfolding execute_def using assms(2) by (intro executeLoop_invocations_ge) simp
  then obtain n where n: "invocations ?ex = Suc n"
    by (cases "invocations ?ex") simp_all
  have prefix: "\<exists>more. posts (sendLoop this transport random ms i calls results
                    ((webhookUrl this, m) # p) waited) = (webhookUrl this, m) # more"
    for i calls results p waited
    using sendLoop_posts_prefix [of this transport random ms i calls results
        "(webhookUrl this, m) # p" waited]
    by auto
  show ?thesis
    using assms(1) n prefix by (cases "result ?ex") (simp_all add: send_def Let_def)
qed

lemmas notifier_eval = send_def DiscordNotifier_new_def RetryHandler_new_def RETRY_CONFIG_def
  DISCORD_CONFIG_maxRetries_def DISCORD_CONFIG_retryDelay_def postMessage_def
  execute_def executeLoop.simps calculateDelay_def isValidWebhookUrl_def startsWith_def
  example_platform_def example_URL_new_def str_def Let_def

text \<open>
  Claim C8, validation of the webhook URL on the delivery path. The webhook URL
  \<open>https://example.com/hook\<close> parses, its host is not \<open>discord.com\<close> and
  \<open>isValidWebhookUrl\<close> rejects it; \<open>send\<close> posts the message to it all the same, and
  succeeds when the transport answers 204. The static method accepts a URL of the
  expected shape, but \<open>send\<close> tests no more than that the URL is set.
\<close>

theorem send_unvalidated:
  "\<not> isValidWebhookUrl example_platform (JString (str ''https://example.com/hook''))
   \<and> isValidWebhookUrl example_platform (JString (str ''https://discord.com/api/webhooks/1/token''))
   \<and> send (DiscordNotifier_new (JString (str ''https://example.com/hook'')))
         (\<lambda>k. Response 204) (\<lambda>k. 1 / 2) (Messages [str ''hello''])
       = \<lparr>outcome = Inr [\<lparr>success = True, index = 1\<rparr>],
          posts = [(JString (str ''https://example.com/hook''), str ''hello'')],
          waits = []\<rparr>
   \<and> send (DiscordNotifier_new JUndefined) (\<lambda>k. Response 204) (\<lambda>k. 1 / 2)
         (Messages [str ''hello''])
       = \<lparr>outcome = Inl (Some WebhookUrlNotSet), posts = [], waits = []\<rparr>"
  by (simp add: notifier_eval)

end
